theory Spec2Isabelle
  imports Main
begin

section \<open>Shopify price updater: the data\<close>

text \<open>
  The script \<^verbatim>\<open>updatePrice.py\<close> reads a spreadsheet of SKUs and new prices, looks every
  SKU up in the shop, saves the new price with a bounded number of attempts and writes a
  CSV log. The shop, the spreadsheet reader, the clock and the CSV writer are outside the
  script. They are modelled as an environment: what each external call answers is given,
  call by call, and every theorem holds for every environment.
\<close>

text \<open>The exceptions that can leave a call; the script catches none of them.\<close>

datatype error =
    SessionError
  | FileError
  | KeyError
  | RemoteError
  | ValueError
  | OSError

text \<open>
  A cell of the data frame that \<^verbatim>\<open>pd.read_excel\<close> returns: \<open>NaN\<close> is the missing
  value (a blank cell, which is also how an empty text or a null reaches the frame), and
  \<open>Val x\<close> any other value. The values themselves (numbers, text) stay a type
  parameter, and Python's \<^verbatim>\<open>str\<close> on them is a parameter of the environment.
\<close>

datatype 'v cell = NaN | Val 'v

text \<open>
  A data frame: the names of its columns and its rows, every row giving a cell for a
  column name.
\<close>

record 'v frame =
  columns :: "string list"
  rows :: "(string \<Rightarrow> 'v cell) list"

text \<open>The local copy of a remote variant: the two fields the script touches.\<close>

record variant =
  sku :: string
  price :: string

text \<open>One row of the log, the dictionary \<^verbatim>\<open>{"SKU": .., "Price": .., "Status": ..}\<close>.\<close>

record 'v log_entry =
  SKU :: string
  Price :: "'v cell"
  Status :: string

text \<open>The lines printed on the console, one constructor per \<^verbatim>\<open>print\<close> of the script.\<close>

datatype 'v message =
    Connected
  | Loaded nat
  | Processing string "'v cell"
  | AttemptFailed int string
  | UpdatedTo string "'v cell"
  | FailedToUpdate string
  | NotFound string
  | LogSaved string
  | Finished

text \<open>
  Everything the script does to the outside, in the order it does it. \<open>Save v\<close>
  carries the record as it is at the moment of the call, that is as it is transmitted.
\<close>

datatype 'v event =
    ActivateSession
  | Print "'v message"
  | Find string
  | Save variant
  | Sleep int
  | WriteCsv string "'v log_entry list"
  | ClearSession

text \<open>
  The environment of one run. \<open>find_reply i s\<close> is what the \<open>i\<close>-th lookup of the run
  answers when asked for \<open>s\<close> (counting from 0), \<open>save_reply i\<close> what the \<open>i\<close>-th save
  answers and \<open>save_update i\<close> what that save does to the local record (a save may
  refresh the attributes from the response). An \<open>Inl\<close> is a raised exception.
\<close>

record 'v env =
  py_str :: "'v \<Rightarrow> string"
  session_reply :: "error option"
  read_excel :: "string \<Rightarrow> error + 'v frame"
  find_reply :: "nat \<Rightarrow> string \<Rightarrow> error + variant list"
  save_reply :: "nat \<Rightarrow> error + bool"
  save_update :: "nat \<Rightarrow> variant \<Rightarrow> variant"
  to_csv_reply :: "error option"
  LOG_FILE :: string

text \<open>The state of a run: the calls made so far and the trace, oldest event first.\<close>

record 'v state =
  finds :: nat
  saves :: nat
  trace :: "'v event list"

definition emit :: "'v event \<Rightarrow> 'v state \<Rightarrow> 'v state" where
  "emit e st = st\<lparr>trace := trace st @ [e]\<rparr>"

text \<open>Reading a trace: the records saved, the delays slept, the logs written.\<close>

fun save_attempts :: "'v event list \<Rightarrow> variant list" where
  "save_attempts [] = []"
| "save_attempts (Save v # es) = v # save_attempts es"
| "save_attempts (_ # es) = save_attempts es"

fun delays :: "'v event list \<Rightarrow> int list" where
  "delays [] = []"
| "delays (Sleep d # es) = d # delays es"
| "delays (_ # es) = delays es"

fun lookups :: "'v event list \<Rightarrow> string list" where
  "lookups [] = []"
| "lookups (Find s # es) = s # lookups es"
| "lookups (_ # es) = lookups es"

fun logs_written :: "'v event list \<Rightarrow> 'v log_entry list list" where
  "logs_written [] = []"
| "logs_written (WriteCsv f entries # es) = entries # logs_written es"
| "logs_written (_ # es) = logs_written es"

section \<open>Configuration\<close>

definition EXCEL_FILE :: string where
  "EXCEL_FILE = ''price_updates.xlsx''"

definition SKU_COLUMN :: string where
  "SKU_COLUMN = ''SKU''"

definition PRICE_COLUMN :: string where
  "PRICE_COLUMN = ''New Price''"

section \<open>Step 1: connect\<close>

text \<open>
  \<^verbatim>\<open>shopify.Session(..)\<close> and \<^verbatim>\<open>activate_session\<close>: either an exception, or the
  session is active.
\<close>

definition connect_to_shopify :: "'v env \<Rightarrow> 'v state \<Rightarrow> (error + unit) \<times> 'v state" where
  "connect_to_shopify E st =
     (case session_reply E of
        Some e \<Rightarrow> (Inl e, st)
      | None \<Rightarrow> (Inr (), emit ActivateSession st))"

section \<open>Step 2: read the spreadsheet\<close>

text \<open>\<^verbatim>\<open>df.dropna(subset=..)\<close>: a column that is not there is a KeyError.\<close>

definition dropna :: "string list \<Rightarrow> 'v frame \<Rightarrow> error + 'v frame" where
  "dropna subs df =
     (if list_all (\<lambda>c. c \<in> set (columns df)) subs
      then Inr (df\<lparr>rows := filter (\<lambda>r. list_all (\<lambda>c. r c \<noteq> NaN) subs) (rows df)\<rparr>)
      else Inl KeyError)"

text \<open>\<^verbatim>\<open>df[c]\<close>: the column as a list of cells.\<close>

definition getitem :: "'v frame \<Rightarrow> string \<Rightarrow> error + 'v cell list" where
  "getitem df c =
     (if c \<in> set (columns df) then Inr (map (\<lambda>r. r c) (rows df)) else Inl KeyError)"

text \<open>Python's \<^verbatim>\<open>str\<close> on a cell; the missing value prints as \<^verbatim>\<open>nan\<close>.\<close>

definition as_str :: "'v env \<Rightarrow> 'v cell \<Rightarrow> string" where
  "as_str E c = (case c of NaN \<Rightarrow> ''nan'' | Val x \<Rightarrow> py_str E x)"

definition astype_str :: "'v env \<Rightarrow> 'v cell list \<Rightarrow> string list" where
  "astype_str E cs = map (as_str E) cs"

text \<open>
  A Python dictionary keeps its keys in the order of their first insertion; storing
  under a key that is there replaces the value in place. \<^verbatim>\<open>dict(pairs)\<close> stores the
  pairs from left to right.
\<close>

fun dict_set :: "'k \<Rightarrow> 'a \<Rightarrow> ('k \<times> 'a) list \<Rightarrow> ('k \<times> 'a) list" where
  "dict_set k v [] = [(k, v)]"
| "dict_set k v ((k', v') # d) =
     (if k' = k then (k, v) # d else (k', v') # dict_set k v d)"

fun dict_from :: "('k \<times> 'a) list \<Rightarrow> ('k \<times> 'a) list \<Rightarrow> ('k \<times> 'a) list" where
  "dict_from d [] = d"
| "dict_from d ((k, v) # kvs) = dict_from (dict_set k v d) kvs"

definition dict :: "('k \<times> 'a) list \<Rightarrow> ('k \<times> 'a) list" where
  "dict kvs = dict_from [] kvs"

definition read_price_updates :: "'v env \<Rightarrow> string \<Rightarrow> error + (string \<times> 'v cell) list" where
  "read_price_updates E filename =
     (case read_excel E filename of
        Inl e \<Rightarrow> Inl e
      | Inr df0 \<Rightarrow>
          (case dropna [SKU_COLUMN, PRICE_COLUMN] df0 of
             Inl e \<Rightarrow> Inl e
           | Inr df \<Rightarrow>
               (case getitem df SKU_COLUMN of
                  Inl e \<Rightarrow> Inl e
                | Inr skus \<Rightarrow>
                    (case getitem df PRICE_COLUMN of
                       Inl e \<Rightarrow> Inl e
                     | Inr prices \<Rightarrow> Inr (dict (zip (astype_str E skus) prices))))))"

section \<open>Step 3: find a variant by its SKU\<close>

definition find_variant_by_sku ::
  "'v env \<Rightarrow> string \<Rightarrow> 'v state \<Rightarrow> (error + variant option) \<times> 'v state" where
  "find_variant_by_sku E s st =
     (let st1 = emit (Find s) (st\<lparr>finds := Suc (finds st)\<rparr>) in
      case find_reply E (finds st) s of
        Inl e \<Rightarrow> (Inl e, st1)
      | Inr variants \<Rightarrow>
          (case variants of
             [] \<Rightarrow> (Inr None, st1)
           | v # _ \<Rightarrow> (Inr (Some v), st1)))"

section \<open>Step 4: update the price\<close>

text \<open>\<^verbatim>\<open>variant.save()\<close>: the record is transmitted, the shop answers.\<close>

definition variant_save ::
  "'v env \<Rightarrow> variant \<Rightarrow> 'v state \<Rightarrow> (error + bool) \<times> variant \<times> 'v state" where
  "variant_save E v st =
     (save_reply E (saves st), save_update E (saves st) v,
      emit (Save v) (st\<lparr>saves := Suc (saves st)\<rparr>))"

text \<open>\<^verbatim>\<open>time.sleep(d)\<close> raises ValueError on a negative length.\<close>

definition time_sleep :: "int \<Rightarrow> 'v state \<Rightarrow> (error + unit) \<times> 'v state" where
  "time_sleep d st = (if d < 0 then (Inl ValueError, st) else (Inr (), emit (Sleep d) st))"

text \<open>
  The loop of \<^verbatim>\<open>update_variant_price\<close> over the attempt numbers that are left: set
  the price, save, return on success, otherwise print, sleep and go on.
\<close>

fun attempt_loop ::
  "'v env \<Rightarrow> int list \<Rightarrow> variant \<Rightarrow> 'v cell \<Rightarrow> int \<Rightarrow> 'v state \<Rightarrow>
     (error + bool) \<times> variant \<times> 'v state" where
  "attempt_loop E [] v new_price delay st = (Inr False, v, st)"
| "attempt_loop E (attempt # rest) v new_price delay st =
     (case variant_save E (v\<lparr>price := as_str E new_price\<rparr>) st of
        (Inl e, v1, st1) \<Rightarrow> (Inl e, v1, st1)
      | (Inr success, v1, st1) \<Rightarrow>
          if success then (Inr True, v1, st1)
          else
            (case time_sleep delay (emit (Print (AttemptFailed attempt (sku v1))) st1) of
               (Inl e, st2) \<Rightarrow> (Inl e, v1, st2)
             | (Inr _, st2) \<Rightarrow> attempt_loop E rest v1 new_price delay st2))"

definition update_variant_price ::
  "'v env \<Rightarrow> variant \<Rightarrow> 'v cell \<Rightarrow> int \<Rightarrow> int \<Rightarrow> 'v state \<Rightarrow>
     (error + bool) \<times> variant \<times> 'v state" where
  "update_variant_price E v new_price retries delay st =
     attempt_loop E [1..retries] v new_price delay st"

section \<open>Step 5: the main workflow\<close>

text \<open>The body of the loop over the updates: one SKU, one log entry.\<close>

definition main_row ::
  "'v env \<Rightarrow> string \<times> 'v cell \<Rightarrow> 'v state \<Rightarrow> (error + 'v log_entry) \<times> 'v state" where
  "main_row E row st =
     (case row of (s, new_price) \<Rightarrow>
       (case find_variant_by_sku E s (emit (Print (Processing s new_price)) st) of
          (Inl e, st1) \<Rightarrow> (Inl e, st1)
        | (Inr None, st1) \<Rightarrow>
            (Inr \<lparr>SKU = s, Price = new_price, Status = ''SKU not found''\<rparr>,
             emit (Print (NotFound s)) st1)
        | (Inr (Some v), st1) \<Rightarrow>
            (case update_variant_price E v new_price 3 2 st1 of
               (Inl e, _, st2) \<Rightarrow> (Inl e, st2)
             | (Inr success, _, st2) \<Rightarrow>
                 if success
                 then (Inr \<lparr>SKU = s, Price = new_price, Status = ''Updated''\<rparr>,
                       emit (Print (UpdatedTo s new_price)) st2)
                 else (Inr \<lparr>SKU = s, Price = new_price, Status = ''Failed to update''\<rparr>,
                       emit (Print (FailedToUpdate s)) st2))))"

fun main_loop ::
  "'v env \<Rightarrow> (string \<times> 'v cell) list \<Rightarrow> 'v log_entry list \<Rightarrow> 'v state \<Rightarrow>
     (error + 'v log_entry list) \<times> 'v state" where
  "main_loop E [] log_entries st = (Inr log_entries, st)"
| "main_loop E (row # updates) log_entries st =
     (case main_row E row st of
        (Inl e, st1) \<Rightarrow> (Inl e, st1)
      | (Inr entry, st1) \<Rightarrow> main_loop E updates (log_entries @ [entry]) st1)"

text \<open>\<^verbatim>\<open>log_df.to_csv(LOG_FILE, index=False)\<close>.\<close>

definition to_csv :: "'v env \<Rightarrow> 'v log_entry list \<Rightarrow> 'v state \<Rightarrow> (error + unit) \<times> 'v state" where
  "to_csv E log_entries st =
     (case to_csv_reply E of
        Some e \<Rightarrow> (Inl e, st)
      | None \<Rightarrow> (Inr (), emit (WriteCsv (LOG_FILE E) log_entries) st))"

definition main :: "'v env \<Rightarrow> 'v state \<Rightarrow> (error + unit) \<times> 'v state" where
  "main E st =
     (case connect_to_shopify E st of
        (Inl e, st1) \<Rightarrow> (Inl e, st1)
      | (Inr _, st1) \<Rightarrow>
          (case read_price_updates E EXCEL_FILE of
             Inl e \<Rightarrow> (Inl e, emit (Print Connected) st1)
           | Inr updates \<Rightarrow>
               (case main_loop E updates []
                       (emit (Print (Loaded (length updates))) (emit (Print Connected) st1)) of
                  (Inl e, st2) \<Rightarrow> (Inl e, st2)
                | (Inr log_entries, st2) \<Rightarrow>
                    (case to_csv E log_entries st2 of
                       (Inl e, st3) \<Rightarrow> (Inl e, st3)
                     | (Inr _, st3) \<Rightarrow>
                         (Inr (),
                          emit (Print Finished)
                            (emit ClearSession (emit (Print (LogSaved (LOG_FILE E))) st3)))))))"

section \<open>The rows the loader keeps\<close>

text \<open>
  In the words of the specification: a row with a missing value in the identifier column
  or in the price column is excluded; the others are the complete rows. The identifier
  of a row is the canonical text of its SKU cell.
\<close>

definition complete_rows :: "'v frame \<Rightarrow> (string \<Rightarrow> 'v cell) list" where
  "complete_rows df = filter (\<lambda>r. r SKU_COLUMN \<noteq> NaN \<and> r PRICE_COLUMN \<noteq> NaN) (rows df)"

definition row_key :: "'v env \<Rightarrow> (string \<Rightarrow> 'v cell) \<Rightarrow> string" where
  "row_key E r = as_str E (r SKU_COLUMN)"

section \<open>Example runs\<close>

text \<open>
  Concrete sheets, shops and records on which the theorems below are instantiated. The
  cell values are text here, on which Python's \<^verbatim>\<open>str\<close> is the identity.
\<close>

definition start :: "'v state" where
  "start = \<lparr>finds = 0, saves = 0, trace = []\<rparr>"

definition widget :: variant where
  "widget = \<lparr>sku = ''A'', price = ''10''\<rparr>"

definition sheet_row :: "'v cell \<Rightarrow> 'v cell \<Rightarrow> string \<Rightarrow> 'v cell" where
  "sheet_row s p c = (if c = SKU_COLUMN then s else if c = PRICE_COLUMN then p else NaN)"

text \<open>
  The sheet of the specification's example: \<open>A\<close> at 10, a row with no identifier and
  a row with no price.
\<close>

definition spec_frame :: "string frame" where
  "spec_frame =
     \<lparr>columns = [SKU_COLUMN, PRICE_COLUMN],
      rows = [sheet_row (Val ''A'') (Val ''10''),
              sheet_row NaN (Val ''20''),
              sheet_row (Val ''B'') NaN]\<rparr>"

text \<open>A sheet with a repeated SKU and an incomplete row in the middle.\<close>

definition shop_frame :: "string frame" where
  "shop_frame =
     \<lparr>columns = [SKU_COLUMN, PRICE_COLUMN],
      rows = [sheet_row (Val ''A'') (Val ''10''),
              sheet_row (Val ''B'') (Val ''20''),
              sheet_row (Val ''C'') NaN,
              sheet_row (Val ''A'') (Val ''30'')]\<rparr>"

text \<open>
  A shop that knows every SKU but \<open>B\<close>, and whose saves are answered by the script
  \<open>replies\<close>; a save leaves the local record as it is.
\<close>

definition shop_env :: "(nat \<Rightarrow> error + bool) \<Rightarrow> string env" where
  "shop_env replies =
     \<lparr>py_str = (\<lambda>s. s),
      session_reply = None,
      read_excel = (\<lambda>f. Inr shop_frame),
      find_reply = (\<lambda>i s. Inr (if s = ''B'' then [] else [\<lparr>sku = s, price = ''10''\<rparr>])),
      save_reply = replies,
      save_update = (\<lambda>i v. v),
      to_csv_reply = None,
      LOG_FILE = ''update_log.csv''\<rparr>"

definition always_failing :: "nat \<Rightarrow> error + bool" where
  "always_failing i = Inr False"

definition second_succeeds :: "nat \<Rightarrow> error + bool" where
  "second_succeeds i = Inr (i = 1)"

definition always_succeeding :: "nat \<Rightarrow> error + bool" where
  "always_succeeding i = Inr True"

text \<open>A shop whose failing saves also overwrite the price of the local record.\<close>

definition forgetful_env :: "string env" where
  "forgetful_env = (shop_env always_failing)\<lparr>save_update := (\<lambda>i v. v\<lparr>price := ''0''\<rparr>)\<rparr>"


definition no_session_env :: "string env" where
  "no_session_env = (shop_env always_succeeding)\<lparr>session_reply := Some SessionError\<rparr>"

definition no_file_env :: "string env" where
  "no_file_env = (shop_env always_succeeding)\<lparr>read_excel := (\<lambda>f. Inl FileError)\<rparr>"

text \<open>The shop of the specification's example sheet.\<close>

definition spec_env :: "string env" where
  "spec_env = (shop_env always_succeeding)\<lparr>read_excel := (\<lambda>f. Inr spec_frame)\<rparr>"


definition fickle_env :: "string env" where
  "fickle_env = (shop_env second_succeeds)
     \<lparr>find_reply := (\<lambda>i s. Inr [\<lparr>sku = s, price = ''12''\<rparr>]),
      save_update := (\<lambda>i v. v\<lparr>price := ''0''\<rparr>)\<rparr>"

section \<open>The retry loop\<close>

lemma save_attempts_append: "save_attempts (xs @ ys) = save_attempts xs @ save_attempts ys"
  by (induction xs rule: save_attempts.induct) simp_all

lemma delays_append: "delays (xs @ ys) = delays xs @ delays ys"
  by (induction xs rule: delays.induct) simp_all

lemma lookups_append: "lookups (xs @ ys) = lookups xs @ lookups ys"
  by (induction xs rule: lookups.induct) simp_all

lemma logs_written_append: "logs_written (xs @ ys) = logs_written xs @ logs_written ys"
  by (induction xs rule: logs_written.induct) simp_all


lemma attempt_loop_succeeds_at:
  "k = 0 \<or> 0 \<le> delay \<Longrightarrow> k < length as \<Longrightarrow>
   (\<forall>i<k. save_reply E (saves st + i) = Inr False) \<Longrightarrow>
   save_reply E (saves st + k) = Inr True \<Longrightarrow>
   \<exists>v' st' x. attempt_loop E as v p delay st = (Inr True, v', st') \<and>
     saves st' = saves st + Suc k \<and> finds st' = finds st \<and>
     delays (trace st') = delays (trace st) @ replicate k delay \<and>
     length (save_attempts (trace st')) = length (save_attempts (trace st)) + Suc k \<and>
     last (trace st') = Save x"
proof (induction as arbitrary: v st k)
  case Nil
  then show ?case by simp
next
  case (Cons a as)
  let ?v0 = "v\<lparr>price := as_str E p\<rparr>"
  let ?v1 = "save_update E (saves st) ?v0"
  let ?st1 = "emit (Save ?v0) (st\<lparr>saves := Suc (saves st)\<rparr>)"
  show ?case
  proof (cases k)
    case 0
    with Cons.prems(4) have "save_reply E (saves st) = Inr True" by simp
    then have "attempt_loop E (a # as) v p delay st = (Inr True, ?v1, ?st1)"
      by (simp add: variant_save_def)
    then show ?thesis
      using 0 by (simp add: emit_def delays_append save_attempts_append)
  next
    case (Suc j)
    let ?st2 = "emit (Sleep delay) (emit (Print (AttemptFailed a (sku ?v1))) ?st1)"
    from Suc Cons.prems(1) have d: "0 \<le> delay" by simp
    from Suc Cons.prems(3) have first: "save_reply E (saves st) = Inr False" by force
    have step: "attempt_loop E (a # as) v p delay st = attempt_loop E as ?v1 p delay ?st2"
      using first d by (simp add: variant_save_def time_sleep_def)
    have j: "j < length as" using Suc Cons.prems(2) by simp
    have fails: "\<forall>i<j. save_reply E (saves ?st2 + i) = Inr False"
      using Suc Cons.prems(3) by (auto simp: emit_def)
    have ok: "save_reply E (saves ?st2 + j) = Inr True"
      using Suc Cons.prems(4) by (simp add: emit_def)
    from Cons.IH [of j ?st2 ?v1, OF _ j fails ok] d obtain v' st' x where
      run: "attempt_loop E as ?v1 p delay ?st2 = (Inr True, v', st')"
      and s: "saves st' = saves ?st2 + Suc j" and f: "finds st' = finds ?st2"
      and dl: "delays (trace st') = delays (trace ?st2) @ replicate j delay"
      and n: "length (save_attempts (trace st')) = length (save_attempts (trace ?st2)) + Suc j"
      and l: "last (trace st') = Save x"
      by blast
    show ?thesis
      using run s f dl n l step Suc
      by (simp add: emit_def delays_append save_attempts_append replicate_append_same)
  qed
qed

lemma attempt_loop_trace:
  "attempt_loop E as v p delay st = (r, v', st') \<Longrightarrow>
   \<exists>evs. trace st' = trace st @ evs \<and> finds st' = finds st \<and>
     lookups evs = [] \<and> logs_written evs = [] \<and>
     (\<forall>x\<in>set (save_attempts evs). price x = as_str E p) \<and>
     length (save_attempts evs) \<le> length as \<and>
     saves st' = saves st + length (save_attempts evs)"
proof (induction as arbitrary: v st)
  case Nil
  then show ?case by simp
next
  case (Cons a as)
  let ?v0 = "v\<lparr>price := as_str E p\<rparr>"
  let ?v1 = "save_update E (saves st) ?v0"
  let ?st1 = "emit (Save ?v0) (st\<lparr>saves := Suc (saves st)\<rparr>)"
  let ?st2 = "emit (Sleep delay) (emit (Print (AttemptFailed a (sku ?v1))) ?st1)"
  consider (raised) e where "save_reply E (saves st) = Inl e"
    | (saved) "save_reply E (saves st) = Inr True"
    | (badsleep) "save_reply E (saves st) = Inr False" "delay < 0"
    | (again) "save_reply E (saves st) = Inr False" "0 \<le> delay"
    by (cases "save_reply E (saves st)") force+
  then show ?case
  proof cases
    case raised
    with Cons.prems have "st' = ?st1" by (simp add: variant_save_def)
    then show ?thesis
      by (intro exI [of _ "[Save ?v0]"]) (simp add: emit_def)
  next
    case saved
    with Cons.prems have "st' = ?st1" by (simp add: variant_save_def)
    then show ?thesis
      by (intro exI [of _ "[Save ?v0]"]) (simp add: emit_def)
  next
    case badsleep
    with Cons.prems have "st' = emit (Print (AttemptFailed a (sku ?v1))) ?st1"
      by (auto simp: variant_save_def time_sleep_def)
    then show ?thesis
      by (intro exI [of _ "[Save ?v0, Print (AttemptFailed a (sku ?v1))]"]) (simp add: emit_def)
  next
    case again
    with Cons.prems have "attempt_loop E as ?v1 p delay ?st2 = (r, v', st')"
      by (simp add: variant_save_def time_sleep_def)
    from Cons.IH [OF this] obtain evs where
      t: "trace st' = trace ?st2 @ evs" and f: "finds st' = finds ?st2"
      and l: "lookups evs = []" and w: "logs_written evs = []"
      and p: "\<forall>x\<in>set (save_attempts evs). price x = as_str E p"
      and n: "length (save_attempts evs) \<le> length as"
      and s: "saves st' = saves ?st2 + length (save_attempts evs)"
      by blast
    show ?thesis
      using t f l w p n s
      by (intro exI [of _ "[Save ?v0, Print (AttemptFailed a (sku ?v1)), Sleep delay] @ evs"])
         (simp add: emit_def)
  qed
qed

lemma length_attempts: "length [1..retries] = nat retries"
  by simp

lemma three_attempts: "[1..3] = [1, 2, 3]"
  by (simp add: upto.simps)

lemma attempt_loop_first_event:
  "attempt_loop E (a # as) v p delay st = (r, v', st') \<Longrightarrow>
   \<exists>evs. trace st' = trace st @ Save (v\<lparr>price := as_str E p\<rparr>) # evs"
proof -
  assume run: "attempt_loop E (a # as) v p delay st = (r, v', st')"
  let ?v0 = "v\<lparr>price := as_str E p\<rparr>"
  let ?v1 = "save_update E (saves st) ?v0"
  let ?st1 = "emit (Save ?v0) (st\<lparr>saves := Suc (saves st)\<rparr>)"
  let ?st2 = "emit (Sleep delay) (emit (Print (AttemptFailed a (sku ?v1))) ?st1)"
  consider (stop) "st' = ?st1"
    | (badsleep) "st' = emit (Print (AttemptFailed a (sku ?v1))) ?st1"
    | (again) "attempt_loop E as ?v1 p delay ?st2 = (r, v', st')"
    using run
    by (cases "save_reply E (saves st)")
       (auto simp: variant_save_def time_sleep_def split: if_splits)
  then show ?thesis
  proof cases
    case stop
    then show ?thesis by (simp add: emit_def)
  next
    case badsleep
    then show ?thesis by (simp add: emit_def)
  next
    case again
    from attempt_loop_trace [OF this] obtain evs where "trace st' = trace ?st2 @ evs"
      by blast
    then show ?thesis by (simp add: emit_def)
  qed
qed


lemma update_variant_price_kth:
  assumes "1 \<le> k" and "int k \<le> retries" and "k = 1 \<or> 0 \<le> delay"
    and "\<forall>i<k - 1. save_reply E (saves st + i) = Inr False"
    and "save_reply E (saves st + (k - 1)) = Inr True"
  shows "\<exists>v' st' x. update_variant_price E v new_price retries delay st = (Inr True, v', st') \<and>
     saves st' = saves st + k \<and>
     length (save_attempts (trace st')) = length (save_attempts (trace st)) + k \<and>
     delays (trace st') = delays (trace st) @ replicate (k - 1) delay \<and>
     last (trace st') = Save x"
proof -
  have a: "k - 1 = 0 \<or> 0 \<le> delay" using assms(3) by auto
  have b: "k - 1 < length [1..retries]" using assms(1,2) by simp
  from attempt_loop_succeeds_at [OF a b assms(4) assms(5), of v new_price]
  show ?thesis
    unfolding update_variant_price_def using assms(1) by auto
qed

section \<open>One row\<close>

lemma find_variant_by_sku_state:
  "snd (find_variant_by_sku E s st) = emit (Find s) (st\<lparr>finds := Suc (finds st)\<rparr>)"
  by (simp add: find_variant_by_sku_def Let_def split: sum.splits list.splits)

lemma main_row_not_found:
  assumes "find_reply E (finds st) s = Inr []"
  shows "main_row E (s, p) st =
     (Inr \<lparr>SKU = s, Price = p, Status = ''SKU not found''\<rparr>,
      emit (Print (NotFound s))
        (emit (Find s) ((emit (Print (Processing s p)) st)\<lparr>finds := Suc (finds st)\<rparr>)))"
  using assms by (simp add: main_row_def find_variant_by_sku_def emit_def)

lemma main_row_raised:
  assumes "find_reply E (finds st) s = Inl e"
  shows "main_row E (s, p) st =
     (Inl e, emit (Find s) ((emit (Print (Processing s p)) st)\<lparr>finds := Suc (finds st)\<rparr>))"
  using assms by (simp add: main_row_def find_variant_by_sku_def emit_def)

lemma main_row_found:
  assumes "find_reply E (finds st) s = Inr (v # vs)"
  shows "main_row E (s, p) st =
     (case update_variant_price E v p 3 2
             (emit (Find s) ((emit (Print (Processing s p)) st)\<lparr>finds := Suc (finds st)\<rparr>)) of
        (Inl e, _, st2) \<Rightarrow> (Inl e, st2)
      | (Inr success, _, st2) \<Rightarrow>
          if success
          then (Inr \<lparr>SKU = s, Price = p, Status = ''Updated''\<rparr>, emit (Print (UpdatedTo s p)) st2)
          else (Inr \<lparr>SKU = s, Price = p, Status = ''Failed to update''\<rparr>,
                emit (Print (FailedToUpdate s)) st2))"
  using assms by (simp add: main_row_def find_variant_by_sku_def emit_def)

lemma main_row_updated:
  assumes found: "find_reply E (finds st) s = Inr (v # vs)"
    and k: "k < 3"
    and fails: "\<forall>i<k. save_reply E (saves st + i) = Inr False"
    and ok: "save_reply E (saves st + k) = Inr True"
  shows "fst (main_row E (s, p) st) = Inr \<lparr>SKU = s, Price = p, Status = ''Updated''\<rparr>"
proof -
  let ?st1 = "emit (Find s) ((emit (Print (Processing s p)) st)\<lparr>finds := Suc (finds st)\<rparr>)"
  have s1: "saves ?st1 = saves st" by (simp add: emit_def)
  have a: "Suc k - 1 = k" by simp
  from update_variant_price_kth [of "Suc k" 3 2 E ?st1 v p] k fails ok s1
  obtain v' st' where "update_variant_price E v p 3 2 ?st1 = (Inr True, v', st')"
    by auto
  then show ?thesis
    by (simp add: main_row_found [OF found])
qed



lemma attempt_loop_returns:
  "0 \<le> delay \<Longrightarrow> \<forall>i. \<exists>b. save_reply E i = Inr b \<Longrightarrow>
   \<exists>b v' st'. attempt_loop E as v p delay st = (Inr b, v', st')"
proof (induction as arbitrary: v st)
  case Nil
  show ?case by (intro exI [of _ False]) simp
next
  case (Cons a as)
  from Cons.prems(2) obtain b where b: "save_reply E (saves st) = Inr b" by blast
  show ?case
  proof (cases b)
    case True
    with b show ?thesis by (intro exI [of _ True]) (simp add: variant_save_def)
  next
    case False
    with b Cons.prems(1) Cons.IH [OF Cons.prems] show ?thesis
      by (simp add: variant_save_def time_sleep_def)
  qed
qed

lemma main_row_returns:
  assumes "\<forall>i. \<exists>b. save_reply E i = Inr b" and "find_reply E (finds st) s = Inr variants"
  shows "\<exists>entry st'. main_row E (s, p) st = (Inr entry, st')"
proof (cases variants)
  case Nil
  with assms(2) show ?thesis by (simp add: main_row_not_found)
next
  case (Cons v vs)
  let ?st1 = "emit (Find s) ((emit (Print (Processing s p)) st)\<lparr>finds := Suc (finds st)\<rparr>)"
  from attempt_loop_returns [OF _ assms(1), of 2 "[1..3]" v p ?st1] obtain b v' st' where
    "update_variant_price E v p 3 2 ?st1 = (Inr b, v', st')"
    by (auto simp: update_variant_price_def)
  moreover from Cons assms(2) have "find_reply E (finds st) s = Inr (v # vs)" by simp
  ultimately show ?thesis
    by (simp add: main_row_found)
qed

lemma main_row_save_raised:
  assumes found: "find_reply E (finds st) s = Inr (v # vs)"
    and raised: "save_reply E (saves st) = Inl e"
  shows "fst (main_row E (s, p) st) = Inl e"
proof -
  let ?st1 = "emit (Find s) ((emit (Print (Processing s p)) st)\<lparr>finds := Suc (finds st)\<rparr>)"
  have "[1..3] = 1 # [1 + 1..3]" by (intro upto_rec1) simp
  then have "fst (update_variant_price E v p 3 2 ?st1) = Inl e"
    using raised by (simp add: update_variant_price_def variant_save_def emit_def)
  then show ?thesis
    by (cases "update_variant_price E v p 3 2 ?st1") (simp add: main_row_found [OF found])
qed

lemma update_variant_price_trace:
  assumes "update_variant_price E v p retries delay st = (r, v', st')"
  shows "\<exists>evs. trace st' = trace st @ evs \<and> finds st' = finds st \<and>
     lookups evs = [] \<and> logs_written evs = []"
proof -
  from assms have "attempt_loop E [1..retries] v p delay st = (r, v', st')"
    by (simp add: update_variant_price_def)
  from attempt_loop_trace [OF this] show ?thesis by blast
qed

lemma main_row_trace:
  assumes "main_row E (s, p) st = (r, st')"
  shows "logs_written (trace st') = logs_written (trace st) \<and>
     lookups (trace st') = lookups (trace st) @ [s] \<and> finds st' = Suc (finds st)"
proof (cases "find_reply E (finds st) s")
  case (Inl e)
  with assms show ?thesis
    by (auto simp: main_row_raised emit_def logs_written_append lookups_append)
next
  case (Inr variants)
  show ?thesis
  proof (cases variants)
    case Nil
    with Inr assms show ?thesis
      by (auto simp: main_row_not_found emit_def logs_written_append lookups_append)
  next
    case (Cons v vs)
    let ?st1 = "emit (Find s) ((emit (Print (Processing s p)) st)\<lparr>finds := Suc (finds st)\<rparr>)"
    obtain r2 v2 st2 where run: "update_variant_price E v p 3 2 ?st1 = (r2, v2, st2)"
      by (cases "update_variant_price E v p 3 2 ?st1") auto
    from update_variant_price_trace [OF run] obtain evs where
      t: "trace st2 = trace ?st1 @ evs" and f: "finds st2 = finds ?st1"
      and l: "lookups evs = []" and w: "logs_written evs = []"
      by blast
    from Cons Inr have "find_reply E (finds st) s = Inr (v # vs)" by simp
    from main_row_found [OF this, of p] assms run
    have "st' = st2 \<or> st' = emit (Print (UpdatedTo s p)) st2 \<or>
          st' = emit (Print (FailedToUpdate s)) st2"
      by (auto split: sum.splits if_splits)
    with t f l w show ?thesis
      by (auto simp: emit_def logs_written_append lookups_append)
  qed
qed

section \<open>The loop over the rows\<close>


lemma main_loop_raised:
  "main_loop E ups log st = (Inl e, st') \<Longrightarrow>
   logs_written (trace st') = logs_written (trace st)"
proof (induction ups arbitrary: log st)
  case Nil
  then show ?case by simp
next
  case (Cons row ups)
  obtain s p where row: "row = (s, p)" by (cases row)
  obtain r st1 where r: "main_row E (s, p) st = (r, st1)"
    by (cases "main_row E (s, p) st")
  show ?case
  proof (cases r)
    case (Inl e1)
    with Cons.prems r row have "st' = st1" by simp
    with main_row_trace [OF r] show ?thesis by simp
  next
    case (Inr entry)
    with Cons.prems r row have "main_loop E ups (log @ [entry]) st1 = (Inl e, st')" by simp
    from Cons.IH [OF this] main_row_trace [OF r] show ?thesis by simp
  qed
qed

lemma main_loop_returns:
  assumes "\<forall>i s. \<exists>variants. find_reply E i s = Inr variants"
    and "\<forall>i. \<exists>b. save_reply E i = Inr b"
  shows "\<exists>log' st'. main_loop E ups log st = (Inr log', st')"
proof (induction ups arbitrary: log st)
  case Nil
  then show ?case by simp
next
  case (Cons row ups)
  obtain s p where row: "row = (s, p)" by (cases row)
  from assms(1) obtain variants where "find_reply E (finds st) s = Inr variants" by blast
  from main_row_returns [OF assms(2) this, of p] obtain entry st1 where
    "main_row E (s, p) st = (Inr entry, st1)" by blast
  with Cons.IH [of "log @ [entry]" st1] show ?case
    by (simp add: row)
qed

section \<open>Calls that raise\<close>




lemma attempt_loop_any_price:
  "attempt_loop E (a # as) (v\<lparr>price := x\<rparr>) p delay st = attempt_loop E (a # as) v p delay st"
  by simp

lemma update_variant_price_any_price:
  assumes "1 \<le> retries"
  shows "update_variant_price E (v\<lparr>price := x\<rparr>) p retries delay st =
     update_variant_price E v p retries delay st"
proof -
  from assms have "[1..retries] = 1 # [1 + 1..retries]"
    by (intro upto_rec1) simp
  then show ?thesis
    by (simp only: update_variant_price_def attempt_loop_any_price)
qed










section \<open>The dictionary of the loader\<close>

lemma map_of_dict_set: "map_of (dict_set k v d) = (map_of d)(k \<mapsto> v)"
  by (induction d) auto

lemma set_dict_set: "set (dict_set k v d) \<subseteq> insert (k, v) (set d)"
  by (induction d) (auto split: if_splits)

lemma keys_dict_set: "fst ` set (dict_set k v d) = insert k (fst ` set d)"
  by (simp add: dom_map_of_conv_image_fst [symmetric] map_of_dict_set)

lemma distinct_dict_set: "distinct (map fst d) \<Longrightarrow> distinct (map fst (dict_set k v d))"
proof (induction d)
  case Nil
  then show ?case by simp
next
  case (Cons x d)
  obtain k' v' where x: "x = (k', v')" by (cases x)
  show ?case
  proof (cases "k' = k")
    case True
    with Cons.prems x show ?thesis by simp
  next
    case False
    from Cons.prems x have "k' \<notin> fst ` set d" by simp
    with False have "k' \<notin> fst ` set (dict_set k v d)" by (simp add: keys_dict_set)
    with Cons x False show ?thesis by simp
  qed
qed

lemma map_of_dict_from: "map_of (dict_from d kvs) = map_of (rev kvs @ d)"
proof (induction kvs arbitrary: d)
  case Nil
  then show ?case by simp
next
  case (Cons x kvs)
  obtain k v where x: "x = (k, v)" by (cases x)
  have "map_of (dict_from d (x # kvs)) = map_of (rev kvs @ dict_set k v d)"
    by (simp add: x Cons.IH)
  also have "\<dots> = map_of (dict_set k v d) ++ map_of (rev kvs)"
    by simp
  also have "\<dots> = map_of ((k, v) # d) ++ map_of (rev kvs)"
    by (simp add: map_of_dict_set)
  also have "\<dots> = map_of (rev (x # kvs) @ d)"
    by (simp add: x)
  finally show ?case .
qed

lemma set_dict_from: "set (dict_from d kvs) \<subseteq> set d \<union> set kvs"
proof (induction kvs arbitrary: d)
  case Nil
  then show ?case by simp
next
  case (Cons x kvs)
  obtain k v where x: "x = (k, v)" by (cases x)
  from Cons.IH [of "dict_set k v d"] set_dict_set [of k v d] show ?case
    by (auto simp: x)
qed

lemma keys_dict_from: "fst ` set (dict_from d kvs) = fst ` set d \<union> fst ` set kvs"
proof (induction kvs arbitrary: d)
  case Nil
  then show ?case by simp
next
  case (Cons x kvs)
  obtain k v where x: "x = (k, v)" by (cases x)
  show ?case by (simp add: x Cons.IH keys_dict_set)
qed

lemma distinct_dict_from:
  "distinct (map fst d) \<Longrightarrow> distinct (map fst (dict_from d kvs))"
proof (induction kvs arbitrary: d)
  case Nil
  then show ?case by simp
next
  case (Cons x kvs)
  obtain k v where x: "x = (k, v)" by (cases x)
  from Cons.IH [OF distinct_dict_set [OF Cons.prems, of k v]] show ?case
    by (simp add: x)
qed

lemma map_of_rev_last:
  "i < length kvs \<Longrightarrow> \<forall>j<length kvs. i < j \<longrightarrow> fst (kvs ! j) \<noteq> fst (kvs ! i) \<Longrightarrow>
   map_of (rev kvs) (fst (kvs ! i)) = Some (snd (kvs ! i))"
proof (induction kvs rule: rev_induct)
  case Nil
  then show ?case by simp
next
  case (snoc x kvs)
  show ?case
  proof (cases "i = length kvs")
    case True
    then show ?thesis by (cases x) simp
  next
    case False
    with snoc.prems(1) have i: "i < length kvs" by simp
    from snoc.prems(2) [rule_format, of "length kvs"] i
    have "fst ((kvs @ [x]) ! length kvs) \<noteq> fst ((kvs @ [x]) ! i)"
      by simp
    with i have ne: "fst x \<noteq> fst (kvs ! i)" by (simp add: nth_append)
    have "\<forall>j<length kvs. i < j \<longrightarrow> fst (kvs ! j) \<noteq> fst (kvs ! i)"
    proof (intro allI impI)
      fix j assume j: "j < length kvs" "i < j"
      with snoc.prems(2) [rule_format, of j]
      have "fst ((kvs @ [x]) ! j) \<noteq> fst ((kvs @ [x]) ! i)" by simp
      with j i show "fst (kvs ! j) \<noteq> fst (kvs ! i)" by (simp add: nth_append)
    qed
    from snoc.IH [OF i this] ne i show ?thesis
      by (cases x) (auto simp: nth_append)
  qed
qed

lemma read_price_updates_eq:
  assumes "read_excel E filename = Inr df"
    and "SKU_COLUMN \<in> set (columns df)" and "PRICE_COLUMN \<in> set (columns df)"
  shows "read_price_updates E filename =
     Inr (dict (map (\<lambda>r. (row_key E r, r PRICE_COLUMN)) (complete_rows df)))"
  using assms
  by (simp add: read_price_updates_def dropna_def getitem_def astype_str_def complete_rows_def
      row_key_def zip_map_map zip_same_conv_map comp_def)

section \<open>Evaluating the example runs\<close>


section \<open>Claims on the retry loop\<close>

text \<open>
  C9: with \<open>retries \<le> 0\<close> the range of attempts is empty: the call returns False, the
  record is as it was (no price assignment), and the state is as it was (no save, no
  delay, nothing printed).
\<close>

theorem update_variant_price_no_attempts:
  "retries \<le> 0 \<Longrightarrow> update_variant_price E v new_price retries delay st = (Inr False, v, st)"
  by (simp add: update_variant_price_def)

theorem update_variant_price_no_attempts_witness:
  "update_variant_price (shop_env always_succeeding) widget (Val ''12'') 0 2 start =
     (Inr False, widget, start)"
  using update_variant_price_no_attempts [of 0 "shop_env always_succeeding" widget "Val ''12''" 2 start]
  by simp

text \<open>
  C1: when every save fails, the call returns False after \<open>retries\<close> saves, but it has
  slept \<open>retries\<close> times, not \<open>retries - 1\<close> times: the loop sleeps after every failed
  attempt, the last one included (lemma \<open>update_variant_price_all_fail\<close>). With the
  defaults, three attempts and two seconds, the delays are \<open>[2, 2, 2]\<close> and the last
  thing the call does is sleep.
\<close>

theorem update_variant_price_sleeps_after_last_attempt:
  "fst (update_variant_price (shop_env always_failing) widget (Val ''12'') 3 2 start) = Inr False \<and>
   map price (save_attempts (trace (snd (snd
     (update_variant_price (shop_env always_failing) widget (Val ''12'') 3 2 start))))) =
     [''12'', ''12'', ''12''] \<and>
   delays (trace (snd (snd
     (update_variant_price (shop_env always_failing) widget (Val ''12'') 3 2 start)))) = [2, 2, 2] \<and>
   last (trace (snd (snd
     (update_variant_price (shop_env always_failing) widget (Val ''12'') 3 2 start)))) = Sleep 2"
  by (simp add: update_variant_price_def three_attempts shop_env_def always_failing_def
      widget_def start_def variant_save_def time_sleep_def emit_def as_str_def)

text \<open>
  C6: when the saves of attempts \<open>1..k-1\<close> fail and the save of attempt \<open>k\<close> succeeds,
  with \<open>1 \<le> k \<le> retries\<close>, the call returns True after exactly \<open>k\<close> saves and
  \<open>k - 1\<close> delays, and the successful save is the last thing it does. A delay is slept
  only if it is not negative (otherwise \<^verbatim>\<open>time.sleep\<close> raises), which matters as soon
  as a first attempt has failed.
\<close>

theorem update_variant_price_succeeds_on_attempt:
  assumes "1 \<le> k" and "int k \<le> retries" and "k = 1 \<or> 0 \<le> delay"
    and "\<forall>i<k - 1. save_reply E (saves st + i) = Inr False"
    and "save_reply E (saves st + (k - 1)) = Inr True"
  shows "\<exists>v' st' x. update_variant_price E v new_price retries delay st = (Inr True, v', st') \<and>
     saves st' = saves st + k \<and>
     length (save_attempts (trace st')) = length (save_attempts (trace st)) + k \<and>
     delays (trace st') = delays (trace st) @ replicate (k - 1) delay \<and>
     last (trace st') = Save x"
  using assms by (rule update_variant_price_kth)

theorem update_variant_price_succeeds_on_attempt_witness:
  "\<exists>v' st' x. update_variant_price (shop_env second_succeeds) widget (Val ''12'') 3 2 start =
       (Inr True, v', st') \<and>
     saves st' = 2 \<and> length (save_attempts (trace st')) = 2 \<and> delays (trace st') = [2] \<and>
     last (trace st') = Save x"
  using update_variant_price_succeeds_on_attempt
    [of 2 3 2 "shop_env second_succeeds" start widget "Val ''12''"]
  by (simp add: shop_env_def second_succeeds_def start_def numeral_2_eq_2)

text \<open>
  C10: every record that one call of \<open>update_variant_price\<close> transmits carries the
  price \<open>str(new_price)\<close>, whatever the earlier saves did to the record, and there are at
  most \<open>retries\<close> of them.
\<close>

theorem update_variant_price_transmits_new_price:
  assumes "update_variant_price E v new_price retries delay st = (r, v', st')"
  shows "\<exists>evs. trace st' = trace st @ evs \<and>
     (\<forall>x\<in>set (save_attempts evs). price x = as_str E new_price) \<and>
     length (save_attempts evs) \<le> nat retries"
proof -
  from assms have "attempt_loop E [1..retries] v new_price delay st = (r, v', st')"
    by (simp add: update_variant_price_def)
  from attempt_loop_trace [OF this] show ?thesis
    by auto
qed

theorem update_variant_price_transmits_new_price_witness:
  "map price (save_attempts (trace (snd (snd
     (update_variant_price forgetful_env widget (Val ''12'') 3 2 start))))) =
     [''12'', ''12'', ''12''] \<and>
   price (fst (snd (update_variant_price forgetful_env widget (Val ''12'') 3 2 start))) = ''0''"
  using update_variant_price_transmits_new_price
    [of forgetful_env widget "Val ''12''" 3 2 start
        "fst (update_variant_price forgetful_env widget (Val ''12'') 3 2 start)"
        "fst (snd (update_variant_price forgetful_env widget (Val ''12'') 3 2 start))"
        "snd (snd (update_variant_price forgetful_env widget (Val ''12'') 3 2 start))"]
  by (simp add: update_variant_price_def three_attempts forgetful_env_def shop_env_def
      always_failing_def widget_def start_def variant_save_def time_sleep_def emit_def as_str_def)

text \<open>
  C8: there is no test of the current price. When the record already carries
  \<open>str(new_price)\<close>, the call still assigns the price and transmits the record: the
  first event is the save of the record, every later attempt transmits a record whose
  price is \<open>str(new_price)\<close> again (also when a failed save has changed the local
  copy), and the price the record had before the call has no influence on the call at
  all. The call returns True at the first save that succeeds, say at attempt \<open>k\<close>,
  after \<open>k\<close> saves; within \<open>main\<close>, where the attempts are 3 and the delay 2, the row
  is logged as Updated.
\<close>

theorem update_variant_price_no_short_circuit:
  assumes same: "price v = as_str E new_price"
    and k: "1 \<le> k" "int k \<le> retries" "k = 1 \<or> 0 \<le> delay"
    and fails: "\<forall>i<k - 1. save_reply E (saves st + i) = Inr False"
    and ok: "save_reply E (saves st + (k - 1)) = Inr True"
  shows "(\<exists>v' st' evs.
      update_variant_price E v new_price retries delay st = (Inr True, v', st') \<and>
      trace st' = trace st @ Save v # evs \<and> length (save_attempts evs) = k - 1 \<and>
      (\<forall>x\<in>set (save_attempts evs). price x = as_str E new_price)) \<and>
    (\<forall>x. update_variant_price E (v\<lparr>price := x\<rparr>) new_price retries delay st =
       update_variant_price E v new_price retries delay st) \<and>
    (\<forall>s vs. find_reply E (finds st) s = Inr (v # vs) \<and> retries = 3 \<and> delay = 2 \<longrightarrow>
      fst (main_row E (s, new_price) st) =
        Inr \<lparr>SKU = s, Price = new_price, Status = ''Updated''\<rparr>)"
proof (intro conjI)
  from update_variant_price_kth [OF k fails ok, of v new_price] obtain v' st' where
    run: "update_variant_price E v new_price retries delay st = (Inr True, v', st')"
    and n: "length (save_attempts (trace st')) = length (save_attempts (trace st)) + k"
    by blast
  from k have "[1..retries] = 1 # [1 + 1..retries]"
    by (intro upto_rec1) simp
  with run have loop: "attempt_loop E (1 # [1 + 1..retries]) v new_price delay st = (Inr True, v', st')"
    by (simp add: update_variant_price_def)
  from attempt_loop_first_event [OF loop] same obtain evs where
    t: "trace st' = trace st @ Save v # evs"
    by auto
  from attempt_loop_trace [OF loop] obtain evs0 where
    t0: "trace st' = trace st @ evs0"
    and p0: "\<forall>x\<in>set (save_attempts evs0). price x = as_str E new_price"
    by blast
  from t t0 have "evs0 = Save v # evs" by simp
  with p0 have p: "\<forall>x\<in>set (save_attempts evs). price x = as_str E new_price" by simp
  from n t have "length (save_attempts evs) = k - 1"
    by (simp add: save_attempts_append)
  with run t p
  show "\<exists>v' st' evs.
      update_variant_price E v new_price retries delay st = (Inr True, v', st') \<and>
      trace st' = trace st @ Save v # evs \<and> length (save_attempts evs) = k - 1 \<and>
      (\<forall>x\<in>set (save_attempts evs). price x = as_str E new_price)"
    by blast
next
  from k have "1 \<le> retries" by simp
  then show "\<forall>x. update_variant_price E (v\<lparr>price := x\<rparr>) new_price retries delay st =
       update_variant_price E v new_price retries delay st"
    by (simp add: update_variant_price_any_price)
next
  show "\<forall>s vs. find_reply E (finds st) s = Inr (v # vs) \<and> retries = 3 \<and> delay = 2 \<longrightarrow>
      fst (main_row E (s, new_price) st) =
        Inr \<lparr>SKU = s, Price = new_price, Status = ''Updated''\<rparr>"
  proof (intro allI impI)
    fix s vs
    assume h: "find_reply E (finds st) s = Inr (v # vs) \<and> retries = 3 \<and> delay = 2"
    then have found: "find_reply E (finds st) s = Inr (v # vs)" by simp
    from h k have k3: "k - 1 < 3" by auto
    from main_row_updated [OF found k3 fails ok]
    show "fst (main_row E (s, new_price) st) =
        Inr \<lparr>SKU = s, Price = new_price, Status = ''Updated''\<rparr>" .
  qed
qed

theorem update_variant_price_no_short_circuit_witness:
  "fst (update_variant_price fickle_env \<lparr>sku = ''A'', price = ''12''\<rparr> (Val ''12'') 3 2 start) =
     Inr True \<and>
   save_attempts (trace (snd (snd
     (update_variant_price fickle_env \<lparr>sku = ''A'', price = ''12''\<rparr> (Val ''12'') 3 2 start)))) =
     [\<lparr>sku = ''A'', price = ''12''\<rparr>, \<lparr>sku = ''A'', price = ''12''\<rparr>] \<and>
   update_variant_price fickle_env \<lparr>sku = ''A'', price = ''7''\<rparr> (Val ''12'') 3 2 start =
     update_variant_price fickle_env \<lparr>sku = ''A'', price = ''12''\<rparr> (Val ''12'') 3 2 start \<and>
   fst (main_row fickle_env (''A'', Val ''12'') start) =
     Inr \<lparr>SKU = ''A'', Price = Val ''12'', Status = ''Updated''\<rparr>"
proof -
  let ?s = "start :: string state"
  let ?v = "\<lparr>sku = ''A'', price = ''12''\<rparr>"
  have same: "price ?v = as_str fickle_env (Val ''12'')"
    by (simp add: fickle_env_def shop_env_def as_str_def)
  have fails: "\<forall>i<2 - 1. save_reply fickle_env (saves ?s + i) = Inr False"
    by (simp add: fickle_env_def shop_env_def second_succeeds_def start_def)
  have ok: "save_reply fickle_env (saves ?s + (2 - 1)) = Inr True"
    by (simp add: fickle_env_def shop_env_def second_succeeds_def start_def)
  from update_variant_price_no_short_circuit
    [of ?v fickle_env "Val ''12''" 2 3 2 ?s, OF same _ _ _ fails ok]
  have any: "\<forall>x. update_variant_price fickle_env (?v\<lparr>price := x\<rparr>) (Val ''12'') 3 2 ?s =
       update_variant_price fickle_env ?v (Val ''12'') 3 2 ?s"
    and row: "\<forall>s vs. find_reply fickle_env (finds ?s) s = Inr (?v # vs) \<and>
        (3::int) = 3 \<and> (2::int) = 2 \<longrightarrow>
      fst (main_row fickle_env (s, Val ''12'') ?s) =
        Inr \<lparr>SKU = s, Price = Val ''12'', Status = ''Updated''\<rparr>"
    by simp_all
  from any [rule_format, of "''7''"]
  have a: "update_variant_price fickle_env \<lparr>sku = ''A'', price = ''7''\<rparr> (Val ''12'') 3 2 ?s =
     update_variant_price fickle_env ?v (Val ''12'') 3 2 ?s"
    by simp
  from row [rule_format, of "''A''" "[]"]
  have b: "fst (main_row fickle_env (''A'', Val ''12'') ?s) =
     Inr \<lparr>SKU = ''A'', Price = Val ''12'', Status = ''Updated''\<rparr>"
    by (simp add: fickle_env_def shop_env_def start_def)
  have c: "fst (update_variant_price fickle_env ?v (Val ''12'') 3 2 ?s) = Inr True \<and>
     save_attempts (trace (snd (snd (update_variant_price fickle_env ?v (Val ''12'') 3 2 ?s)))) =
       [?v, ?v]"
    by (simp add: update_variant_price_def three_attempts fickle_env_def shop_env_def
        variant_save_def time_sleep_def emit_def as_str_def second_succeeds_def start_def)
  from a b c show ?thesis by simp
qed

section \<open>Claims on the rows\<close>



section \<open>Claims on the run\<close>






text \<open>
  C7, as the claim states it, fails in its last part: when the spreadsheet cannot be
  loaded, the run aborts with the session already activated and the line
  \<open>Connected\<close> already printed, and the session is never cleared. The state at the
  abort is not the state at the start.
\<close>

theorem load_failure_changes_state:
  "fst (main no_file_env start) = Inl FileError \<and>
   trace (snd (main no_file_env start)) = [ActivateSession, Print Connected] \<and>
   snd (main no_file_env start) \<noteq> start"
  by (simp add: main_def connect_to_shopify_def read_price_updates_def no_file_env_def
      shop_env_def start_def emit_def)

text \<open>
  C7, amended: a failure of the session setup leaves \<open>main\<close> with the state untouched.
  A failure of the loader (the file cannot be read, or a column is missing) leaves
  \<open>main\<close> before any row is processed: no lookup, no save, no log written. What has
  changed by then is exactly the session activation, which is not undone, and the
  message \<open>Connected\<close>.
\<close>

theorem main_fails_fast:
  "(session_reply E = Some e \<longrightarrow> main E st = (Inl e, st)) \<and>
   (session_reply E = None \<and> read_price_updates E EXCEL_FILE = Inl e \<longrightarrow>
      main E st = (Inl e, st\<lparr>trace := trace st @ [ActivateSession, Print Connected]\<rparr>) \<and>
      finds (snd (main E st)) = finds st \<and> saves (snd (main E st)) = saves st \<and>
      lookups (trace (snd (main E st))) = lookups (trace st) \<and>
      save_attempts (trace (snd (main E st))) = save_attempts (trace st) \<and>
      logs_written (trace (snd (main E st))) = logs_written (trace st))"
  by (simp add: main_def connect_to_shopify_def emit_def lookups_append save_attempts_append
      logs_written_append)

theorem main_fails_fast_witness:
  "main no_session_env start = (Inl SessionError, start) \<and>
   main no_file_env start =
     (Inl FileError, \<lparr>finds = 0, saves = 0, trace = [ActivateSession, Print Connected]\<rparr>) \<and>
   lookups (trace (snd (main no_file_env start))) = [] \<and>
   save_attempts (trace (snd (main no_file_env start))) = [] \<and>
   logs_written (trace (snd (main no_file_env start))) = []"
  using main_fails_fast [of no_session_env SessionError start]
    main_fails_fast [of no_file_env FileError start]
  by (simp add: no_session_env_def no_file_env_def shop_env_def read_price_updates_def start_def)

section \<open>Claims on the loader\<close>

text \<open>
  C5: when the sheet is read and has both columns, the loader returns a mapping whose
  keys are distinct; every entry of it comes from a complete row, so a row with a missing
  identifier or a missing price contributes nothing; its keys are exactly the
  identifiers of the complete rows; and an identifier is mapped to the price of its last
  complete row. On the specification's example only \<open>A\<close> at 10 is left.
\<close>

theorem read_price_updates_drops_and_dedups:
  assumes "read_excel E filename = Inr df"
    and "SKU_COLUMN \<in> set (columns df)" and "PRICE_COLUMN \<in> set (columns df)"
  shows "\<exists>m. read_price_updates E filename = Inr m \<and>
     distinct (map fst m) \<and>
     set m \<subseteq> (\<lambda>r. (row_key E r, r PRICE_COLUMN)) ` set (complete_rows df) \<and>
     fst ` set m = row_key E ` set (complete_rows df) \<and>
     (\<forall>i<length (complete_rows df).
        (\<forall>j<length (complete_rows df). i < j \<longrightarrow>
           row_key E (complete_rows df ! j) \<noteq> row_key E (complete_rows df ! i)) \<longrightarrow>
        map_of m (row_key E (complete_rows df ! i)) = Some ((complete_rows df ! i) PRICE_COLUMN))"
proof -
  let ?kvs = "map (\<lambda>r. (row_key E r, r PRICE_COLUMN)) (complete_rows df)"
  have eq: "read_price_updates E filename = Inr (dict ?kvs)"
    using assms by (rule read_price_updates_eq)
  have d: "distinct (map fst (dict ?kvs))"
    by (simp add: dict_def distinct_dict_from)
  have s: "set (dict ?kvs) \<subseteq> (\<lambda>r. (row_key E r, r PRICE_COLUMN)) ` set (complete_rows df)"
    using set_dict_from [of "[]" ?kvs] by (simp add: dict_def)
  have k: "fst ` set (dict ?kvs) = row_key E ` set (complete_rows df)"
    by (simp add: dict_def keys_dict_from image_image)
  have l: "\<forall>i<length (complete_rows df).
        (\<forall>j<length (complete_rows df). i < j \<longrightarrow>
           row_key E (complete_rows df ! j) \<noteq> row_key E (complete_rows df ! i)) \<longrightarrow>
        map_of (dict ?kvs) (row_key E (complete_rows df ! i)) =
          Some ((complete_rows df ! i) PRICE_COLUMN)"
  proof (intro allI impI)
    fix i
    assume i: "i < length (complete_rows df)"
      and last: "\<forall>j<length (complete_rows df). i < j \<longrightarrow>
           row_key E (complete_rows df ! j) \<noteq> row_key E (complete_rows df ! i)"
    from i have i': "i < length ?kvs" by simp
    from last i have "\<forall>j<length ?kvs. i < j \<longrightarrow> fst (?kvs ! j) \<noteq> fst (?kvs ! i)"
      by simp
    from map_of_rev_last [OF i' this] i
    show "map_of (dict ?kvs) (row_key E (complete_rows df ! i)) =
          Some ((complete_rows df ! i) PRICE_COLUMN)"
      by (simp add: dict_def map_of_dict_from)
  qed
  from eq d s k l show ?thesis by blast
qed

theorem read_price_updates_drops_and_dedups_witness:
  "read_price_updates spec_env EXCEL_FILE = Inr [(''A'', Val ''10'')] \<and>
   read_price_updates (shop_env always_failing) EXCEL_FILE =
     Inr [(''A'', Val ''30''), (''B'', Val ''20'')]"
  using read_price_updates_drops_and_dedups [of spec_env EXCEL_FILE spec_frame]
    read_price_updates_drops_and_dedups [of "shop_env always_failing" EXCEL_FILE shop_frame]
  by (simp add: read_price_updates_def spec_env_def shop_env_def spec_frame_def shop_frame_def
      sheet_row_def dropna_def getitem_def astype_str_def as_str_def dict_def
      SKU_COLUMN_def PRICE_COLUMN_def)

end
